theory Spec2Isabelle
  imports
    Complex_Main
    "HOL-Library.Char_ord"
    "HOL-Library.List_Lexorder"
    "HOL-Library.Product_Lexorder"
begin

section \<open>Dataset discovery and selection in \<open>run.py\<close>\<close>

text \<open>
  The development embeds the part of \<open>main\<close> in \<open>src/run.py\<close> that resolves the
  dataset (lines 164 to 271): file enumeration, the nested function \<open>infer_file\<close>, the
  choice of the primary file, the catalog dump and the catalog-only exit.

  The libraries the code calls (\<open>os\<close>, \<open>glob\<close>, \<open>pandas\<close>, \<open>json\<close>, the analysis
  agent) are not part of the repository. They enter the model as the fields of an
  environment record: each field is the result the call gives, an exception being a
  value of a sum type. Strings are \<open>char list\<close>; the string functions below follow the
  POSIX versions of \<open>os.path\<close> and agree with Python on ASCII text. The score is a
  Python float; the model computes it in exact rational arithmetic, so rounding is not
  represented.
\<close>

subsection \<open>String functions of the standard library\<close>

text \<open>\<open>str.lower\<close>: the letters A to Z are mapped to a to z.\<close>

definition lower_char :: "char \<Rightarrow> char" where
  "lower_char c =
     (case map_of (zip ''ABCDEFGHIJKLMNOPQRSTUVWXYZ'' ''abcdefghijklmnopqrstuvwxyz'') c of
        None \<Rightarrow> c
      | Some d \<Rightarrow> d)"

definition lower :: "string \<Rightarrow> string" where
  "lower s = map lower_char s"

text \<open>\<open>str.strip()\<close>: ASCII white space is removed at both ends.\<close>

definition is_space :: "char \<Rightarrow> bool" where
  "is_space c =
     (c \<in> set [CHR 0x09, CHR 0x0A, CHR 0x0B, CHR 0x0C, CHR 0x0D,
                CHR 0x1C, CHR 0x1D, CHR 0x1E, CHR 0x1F, CHR 0x20])"

definition strip :: "string \<Rightarrow> string" where
  "strip s = rev (dropWhile is_space (rev (dropWhile is_space s)))"

text \<open>\<open>s.split(sep)\<close> for a separator of one character; \<open>"".split(",")\<close> is \<open>[""]\<close>.\<close>

fun str_split :: "char \<Rightarrow> string \<Rightarrow> string list" where
  "str_split sep [] = [[]]"
| "str_split sep (c # cs) =
     (if c = sep then [] # str_split sep cs
      else (case str_split sep cs of
              [] \<Rightarrow> [[c]]
            | w # ws \<Rightarrow> (c # w) # ws))"

text \<open>
  \<open>posixpath.join\<close>: a component that starts with the separator discards everything
  before it; otherwise components are joined with one separator.
\<close>

definition join_step :: "string \<Rightarrow> string \<Rightarrow> string" where
  "join_step p b =
     (if take 1 b = ''/'' then b
      else if p = [] \<or> last p = CHR ''/'' then p @ b
      else p @ ''/'' @ b)"

definition path_join :: "string \<Rightarrow> string list \<Rightarrow> string" where
  "path_join a ps = foldl join_step a ps"

text \<open>\<open>posixpath.basename\<close>: the text after the last separator.\<close>

definition basename :: "string \<Rightarrow> string" where
  "basename p = rev (takeWhile (\<lambda>c. c \<noteq> CHR ''/'') (rev p))"

text \<open>
  The second component of \<open>posixpath.splitext\<close>: the text from the last dot of the
  base name on, provided some character before that dot is not a dot; else empty.
\<close>

definition splitext_ext :: "string \<Rightarrow> string" where
  "splitext_ext p =
     (let name = basename p;
          suffix = rev (takeWhile (\<lambda>c. c \<noteq> CHR ''.'') (rev name));
          stem = rev (drop 1 (dropWhile (\<lambda>c. c \<noteq> CHR ''.'') (rev name)))
      in if CHR ''.'' \<in> set name \<and> list_ex (\<lambda>c. c \<noteq> CHR ''.'') stem
         then CHR ''.'' # suffix else [])"

text \<open>Truthiness of an optional string and \<open>x or 0\<close> on an optional integer.\<close>

fun truthy :: "string option \<Rightarrow> bool" where
  "truthy None = False"
| "truthy (Some s) = (s \<noteq> [])"

fun or0 :: "nat option \<Rightarrow> nat" where
  "or0 None = 0"
| "or0 (Some n) = n"

subsection \<open>Data\<close>

text \<open>
  What a pandas read returns, as far as \<open>infer_file\<close> looks at it: \<open>df.shape\<close> is
  \<open>(df_nrows, length df_columns)\<close> and \<open>list(df.columns)\<close> is \<open>df_columns\<close>. Column
  labels are strings.
\<close>

record dataframe =
  df_nrows :: nat
  df_columns :: "string list"

text \<open>The four read calls of \<open>infer_file\<close>, each with the arguments the source fixes.\<close>

datatype reader = ReadCsv | ReadParquet | ReadFeather | ReadStata

record signals =
  has_unit :: bool
  has_time :: bool
  has_treat :: bool
  has_outcome :: bool

text \<open>
  A catalog entry is a Python dict; a key the dict does not have is \<open>None\<close> here.
  The keys \<open>path\<close>, \<open>ext\<close> and \<open>size\<close> are always present.
\<close>

record candidate =
  path :: string
  ext :: string
  size_bytes :: nat
  error :: "string option"
  nrows :: "nat option"
  ncols :: "nat option"
  columns :: "string list option"
  score :: "rat option"
  signals :: "signals option"

text \<open>The object handed to \<open>json.dump\<close>.\<close>

record catalog_doc =
  doc_data_dir :: string
  doc_patterns :: "string list"
  doc_selected :: string
  doc_files :: "candidate list"

datatype agent_outcome = RunCompletes | RunInterrupted | RunRaises string | ConstructorRaises string

text \<open>
  The environment. \<open>Inl msg\<close> is an exception whose \<open>str\<close> is \<open>msg\<close>.
  \<open>glob_recursive pat\<close> is \<open>glob.glob(pat, recursive=True)\<close>; \<open>read_table\<close> is the
  pandas call of the given reader, including \<open>df.shape\<close>, \<open>df.columns\<close> and, for
  Stata, \<open>next\<close> on the chunk iterator; \<open>makedirs p\<close> is \<open>Some msg\<close> when
  \<open>os.makedirs(p, exist_ok=True)\<close> raises; \<open>dump_json p d\<close> holds when opening \<open>p\<close>
  and dumping \<open>d\<close> into it completes; \<open>now\<close> is the formatted time stamp.
\<close>

record env =
  isdir :: "string \<Rightarrow> bool"
  exists_path :: "string \<Rightarrow> bool"
  glob_recursive :: "string \<Rightarrow> string list"
  getsize :: "string \<Rightarrow> string + nat"
  read_table :: "reader \<Rightarrow> string \<Rightarrow> string + dataframe"
  abspath :: "string \<Rightarrow> string"
  now :: string
  makedirs :: "string \<Rightarrow> string option"
  dump_json :: "string \<Rightarrow> catalog_doc \<Rightarrow> bool"
  agent :: "string \<Rightarrow> agent_outcome"

subsection \<open>The sampler and scorer: \<open>infer_file\<close>\<close>

definition time_keys :: "string list" where
  "time_keys = [''time'', ''year'', ''date'', ''t'']"

definition unit_keys :: "string list" where
  "unit_keys = [''unit'', ''id'', ''panelid'', ''county'', ''state'', ''region'', ''firm'']"

definition treat_keys :: "string list" where
  "treat_keys = [''treat'', ''treated'', ''policy'', ''post'', ''d'']"

definition outcome_keys :: "string list" where
  "outcome_keys = [''y'', ''outcome'', ''dep'', ''dependent'', ''lhs'']"

text \<open>\<open>{c.lower(): c for c in cols}\<close>: a later column replaces an earlier one.\<close>

definition colset :: "string list \<Rightarrow> (string \<rightharpoonup> string)" where
  "colset cols = foldl (\<lambda>m c. m(lower c \<mapsto> c)) Map.empty cols"

text \<open>\<open>any(k in colset for k in keys)\<close>.\<close>

definition any_in :: "(string \<rightharpoonup> string) \<Rightarrow> string list \<Rightarrow> bool" where
  "any_in m keys = list_ex (\<lambda>k. m k \<noteq> None) keys"

text \<open>Lines 215 to 219: the score is built up by four additions.\<close>

definition compute_score :: "signals \<Rightarrow> nat option \<Rightarrow> nat option \<Rightarrow> rat" where
  "compute_score sg nr nc =
     (let s0 = 0;
          s1 = s0 + (if has_unit sg \<and> has_time sg then 3 else 0);
          s2 = s1 + (if has_treat sg then 2 else 0);
          s3 = s2 + (if has_outcome sg then 1 else 0);
          s4 = s3 + (1 / 2 * of_nat (or0 nr) / 1000000 + 1 / 10 * of_nat (or0 nc))
      in s4)"

definition error_record :: "string \<Rightarrow> string \<Rightarrow> nat \<Rightarrow> string \<Rightarrow> candidate" where
  "error_record fp e sz msg =
     \<lparr>path = fp, ext = e, size_bytes = sz, error = Some msg, nrows = None, ncols = None,
      columns = None, score = None, signals = None\<rparr>"

text \<open>Lines 202 to 204 and 208 to 225: what follows a read that returned.\<close>

definition scored_record :: "string \<Rightarrow> string \<Rightarrow> nat \<Rightarrow> dataframe \<Rightarrow> candidate" where
  "scored_record fp e sz df =
     (let n_rows = Some (df_nrows df);
          n_cols = Some (length (df_columns df));
          cols = df_columns df;
          sample_cols = take 20 cols;
          cs = colset cols;
          sg = \<lparr>has_unit = any_in cs unit_keys, has_time = any_in cs time_keys,
                has_treat = any_in cs treat_keys, has_outcome = any_in cs outcome_keys\<rparr>
      in \<lparr>path = fp, ext = e, size_bytes = sz, error = None, nrows = n_rows, ncols = n_cols,
          columns = Some sample_cols, score = Some (compute_score sg n_rows n_cols),
          signals = Some sg\<rparr>)"

text \<open>The \<open>if\<close>/\<open>elif\<close> chain on the extension; \<open>None\<close> is the \<open>else\<close> branch.\<close>

definition dispatch :: "string \<Rightarrow> reader option" where
  "dispatch e =
     (if e = ''.csv'' then Some ReadCsv
      else if e = ''.parquet'' then Some ReadParquet
      else if e = ''.feather'' then Some ReadFeather
      else if e = ''.dta'' then Some ReadStata
      else None)"

text \<open>
  \<open>infer_file\<close>. The call of \<open>os.path.getsize\<close> on line 186 stands before the
  \<open>try\<close>, so its exception leaves the function: the result \<open>Inl msg\<close>. Everything
  the \<open>try\<close> block raises becomes an error record.
\<close>

definition infer_file :: "env \<Rightarrow> string \<Rightarrow> string + candidate" where
  "infer_file E fp =
     (let e = lower (splitext_ext fp) in
      case getsize E fp of
        Inl exn \<Rightarrow> Inl exn
      | Inr sz \<Rightarrow>
          (case dispatch e of
             None \<Rightarrow> Inr (error_record fp e sz ''unsupported_ext'')
           | Some rd \<Rightarrow>
               (case read_table E rd fp of
                  Inl msg \<Rightarrow> Inr (error_record fp e sz msg)
                | Inr df \<Rightarrow> Inr (scored_record fp e sz df))))"

subsection \<open>The file enumerator (lines 169 to 181)\<close>

text \<open>\<open>[p.strip() for p in (args.data_glob or "").split(",") if p.strip()]\<close>.\<close>

definition patterns_of :: "string \<Rightarrow> string list" where
  "patterns_of g = map strip (filter (\<lambda>p. strip p \<noteq> []) (str_split CHR '','' g))"

text \<open>The argument of \<open>glob.glob\<close> for one pattern: \<open>os.path.join(data_dir, "**", pat)\<close>.\<close>

definition glob_arg :: "string \<Rightarrow> string \<Rightarrow> string" where
  "glob_arg dir pat = path_join dir [''**'', pat]"

text \<open>
  The loop extends \<open>files\<close> pattern by pattern; \<open>sorted(set(files))\<close> is the sorted
  list of the distinct paths.
\<close>

definition discover_files :: "env \<Rightarrow> string \<Rightarrow> string list \<Rightarrow> string list" where
  "discover_files E dir patterns =
     (let files = foldl (\<lambda>fs pat. fs @ glob_recursive E (glob_arg dir pat)) [] patterns
      in sorted_list_of_set (set files))"

text \<open>
  What the spec calls a recursive search rooted at the directory: the glob pattern is
  the directory, the component \<open>**\<close> and the pattern, joined by separators.
\<close>

definition rooted_glob :: "string \<Rightarrow> string \<Rightarrow> string" where
  "rooted_glob dir pat =
     (if dir = [] \<or> last dir = CHR ''/'' then dir @ ''**/'' @ pat else dir @ ''/**/'' @ pat)"

datatype config_error =
  DirectoryNotFound | NoFilesFound | PrimaryFileNotFound | NoReadableFiles | DataFileNotFound

definition enumerate_files :: "env \<Rightarrow> string \<Rightarrow> string \<Rightarrow> config_error + string list" where
  "enumerate_files E dir g =
     (if \<not> isdir E dir then Inl DirectoryNotFound
      else let patterns = patterns_of g;
               files = discover_files E dir patterns
           in if files = [] then Inl NoFilesFound else Inr files)"

subsection \<open>The catalog (line 227)\<close>

text \<open>
  The list comprehension calls \<open>infer_file\<close> on the files in order; an exception that
  leaves \<open>infer_file\<close> leaves the comprehension.
\<close>

fun build_catalog :: "env \<Rightarrow> string list \<Rightarrow> string + candidate list" where
  "build_catalog E [] = Inr []"
| "build_catalog E (fp # fps) =
     (case infer_file E fp of
        Inl exn \<Rightarrow> Inl exn
      | Inr c \<Rightarrow>
          (case build_catalog E fps of
             Inl exn \<Rightarrow> Inl exn
           | Inr cs \<Rightarrow> Inr (c # cs)))"

subsection \<open>List objects\<close>

text \<open>
  \<open>catalog\<close>, \<open>matched\<close> and \<open>valid\<close> are Python list objects, and \<open>valid.sort\<close>
  changes its list in place. The lists live in a store of cells; a variable holds the
  address of its list. A list comprehension allocates a new cell.
\<close>

record heap =
  cells :: "nat \<Rightarrow> candidate list"
  next_free :: nat

definition empty_heap :: heap where
  "empty_heap = \<lparr>cells = (\<lambda>_. []), next_free = 0\<rparr>"

definition new_list :: "candidate list \<Rightarrow> heap \<Rightarrow> nat \<times> heap" where
  "new_list xs h =
     (next_free h, \<lparr>cells = (cells h)(next_free h := xs), next_free = Suc (next_free h)\<rparr>)"

text \<open>
  \<open>xs.sort(key=k, reverse=True)\<close> on a Python list: the list is reversed, sorted
  ascending by a stable sort, and reversed again, so equal keys keep their order.
\<close>

definition sort_reverse :: "('a \<Rightarrow> 'k::linorder) \<Rightarrow> 'a list \<Rightarrow> 'a list" where
  "sort_reverse k xs = rev (sort_key k (rev xs))"

text \<open>
  The key of line 244, compared as Python compares tuples, component by component:
  \<open>(c.get("score", 0), c.get("nrows") or 0, c.get("size") or 0)\<close>.
\<close>

definition sort_tuple :: "candidate \<Rightarrow> rat \<times> nat \<times> nat" where
  "sort_tuple c =
     ((case score c of None \<Rightarrow> 0 | Some s \<Rightarrow> s), or0 (nrows c), or0 (Some (size_bytes c)))"

definition list_sort :: "nat \<Rightarrow> heap \<Rightarrow> heap" where
  "list_sort a h = h\<lparr>cells := (cells h)(a := sort_reverse sort_tuple (cells h a))\<rparr>"

subsection \<open>The primary selector (lines 230 to 245)\<close>

record args =
  data_dir :: "string option"
  data_glob :: string
  primary_file :: "string option"
  catalog_only :: bool
  data_path :: "string option"

fun str_of :: "string option \<Rightarrow> string" where
  "str_of None = []"
| "str_of (Some s) = s"

text \<open>The condition of the comprehension on line 233.\<close>

definition matches :: "string \<Rightarrow> candidate \<Rightarrow> bool" where
  "matches cand c = (path c = cand \<or> basename (path c) = basename cand)"

text \<open>The condition of the comprehension on line 240: \<open>not c.get("error")\<close>.\<close>

definition readable :: "candidate \<Rightarrow> bool" where
  "readable c = (\<not> truthy (error c))"

definition select_explicit :: "string \<Rightarrow> nat \<Rightarrow> heap \<Rightarrow> (config_error + string) \<times> heap" where
  "select_explicit cand catalog h =
     (let (matched, h1) = new_list (filter (matches cand) (cells h catalog)) h
      in case cells h1 matched of
           [] \<Rightarrow> (Inl PrimaryFileNotFound, h1)
         | c # _ \<Rightarrow> (Inr (path c), h1))"

definition select_auto :: "nat \<Rightarrow> heap \<Rightarrow> (config_error + string) \<times> heap" where
  "select_auto catalog h =
     (let (valid, h1) = new_list (filter readable (cells h catalog)) h
      in if cells h1 valid = [] then (Inl NoReadableFiles, h1)
         else let h2 = list_sort valid h1
              in (Inr (path (hd (cells h2 valid))), h2))"

definition choose_primary :: "args \<Rightarrow> nat \<Rightarrow> heap \<Rightarrow> (config_error + string) \<times> heap" where
  "choose_primary A catalog h =
     (if truthy (primary_file A) then select_explicit (str_of (primary_file A)) catalog h
      else select_auto catalog h)"

subsection \<open>Resolving the dataset (lines 164 to 271) and the agent (lines 285 to 328)\<close>

datatype exit_status = Return nat | Uncaught string

text \<open>
  What a run leaves behind: how the process ends, the configuration error it printed,
  the catalog file it wrote (name and content), and the data path it constructed the
  agent with.
\<close>

record run_result =
  status :: exit_status
  printed :: "config_error option"
  saved :: "(string \<times> catalog_doc) option"
  agent_input :: "string option"

definition fail :: "config_error \<Rightarrow> run_result" where
  "fail e = \<lparr>status = Return 1, printed = Some e, saved = None, agent_input = None\<rparr>"

definition crash :: "string \<Rightarrow> run_result" where
  "crash exn = \<lparr>status = Uncaught exn, printed = None, saved = None, agent_input = None\<rparr>"

definition run_agent :: "env \<Rightarrow> string \<Rightarrow> (string \<times> catalog_doc) option \<Rightarrow> run_result" where
  "run_agent E dp sv =
     \<lparr>status = (case agent E dp of
                  ConstructorRaises exn \<Rightarrow> Uncaught exn
                | RunCompletes \<Rightarrow> Return 0
                | RunInterrupted \<Rightarrow> Return 1
                | RunRaises exn \<Rightarrow> Return 1),
      printed = None, saved = sv, agent_input = Some dp\<rparr>"

text \<open>Lines 247 to 265: the dump, whose failure is passed over, and the catalog-only exit.\<close>

definition save_and_continue ::
  "env \<Rightarrow> args \<Rightarrow> string list \<Rightarrow> candidate list \<Rightarrow> string \<Rightarrow> run_result" where
  "save_and_continue E A patterns files_field selected =
     (let ts = now E in
      case makedirs E ''logs'' of
        Some exn \<Rightarrow> crash exn
      | None \<Rightarrow>
          let cat_path = path_join ''logs'' [''dataset_catalog_'' @ ts @ ''.json''];
              doc = \<lparr>doc_data_dir = abspath E (str_of (data_dir A)), doc_patterns = patterns,
                     doc_selected = selected, doc_files = files_field\<rparr>;
              sv = (if dump_json E cat_path doc then Some (cat_path, doc) else None)
          in if catalog_only A
             then \<lparr>status = Return 0, printed = None, saved = sv, agent_input = None\<rparr>
             else run_agent E selected sv)"

definition main :: "env \<Rightarrow> args \<Rightarrow> run_result" where
  "main E A =
     (if truthy (data_dir A) then
        (let dir = str_of (data_dir A) in
         if \<not> isdir E dir then fail DirectoryNotFound
         else
           let patterns = patterns_of (data_glob A);
               files = discover_files E dir patterns
           in if files = [] then fail NoFilesFound
              else
                (case build_catalog E files of
                   Inl exn \<Rightarrow> crash exn
                 | Inr recs \<Rightarrow>
                     (let (catalog, h1) = new_list recs empty_heap;
                          (sel, h2) = choose_primary A catalog h1
                      in case sel of
                           Inl err \<Rightarrow> fail err
                         | Inr selected \<Rightarrow>
                             save_and_continue E A patterns (cells h2 catalog) selected)))
      else if \<not> truthy (data_path A) \<or> \<not> exists_path E (str_of (data_path A))
           then fail DataFileNotFound
           else run_agent E (str_of (data_path A)) None)"

subsection \<open>Notions of the specification\<close>


text \<open>
  The ranking of the specification, in its own words: descending by the tuple (score,
  row count or 0, size in bytes or 0). \<open>spec_ranks_below a b\<close> holds when \<open>a\<close> comes
  strictly after \<open>b\<close> in that order. It is compared with the key of the source,
  \<open>sort_tuple\<close>, in \<open>sort_tuple_less\<close> below.
\<close>

definition score_or0 :: "candidate \<Rightarrow> rat" where
  "score_or0 c = (case score c of None \<Rightarrow> 0 | Some s \<Rightarrow> s)"

definition spec_ranks_below :: "candidate \<Rightarrow> candidate \<Rightarrow> bool" where
  "spec_ranks_below a b =
     (score_or0 a < score_or0 b \<or>
      (score_or0 a = score_or0 b \<and>
         (or0 (nrows a) < or0 (nrows b) \<or>
          (or0 (nrows a) = or0 (nrows b) \<and> size_bytes a < size_bytes b))))"

text \<open>
  A primary file can be selected: with an override, some record matches it; without,
  some record is readable.
\<close>

definition primary_selectable :: "args \<Rightarrow> candidate list \<Rightarrow> bool" where
  "primary_selectable A recs =
     (if truthy (primary_file A) then list_ex (matches (str_of (primary_file A))) recs
      else list_ex readable recs)"

subsection \<open>Concrete runs\<close>

text \<open>
  A data directory with two CSV files: \<open>a.csv\<close> has the four panel columns in mixed
  case, \<open>b.csv\<close> has an identifier and a notes column.
\<close>

definition panel_df :: dataframe where
  "panel_df = \<lparr>df_nrows = 200, df_columns = [''Unit'', ''TIME'', ''treat'', ''Y'']\<rparr>"

definition notes_df :: dataframe where
  "notes_df = \<lparr>df_nrows = 50, df_columns = [''id'', ''notes'']\<rparr>"

text \<open>A table of 21 columns whose only keyword column is the last one.\<close>

definition wide_df :: dataframe where
  "wide_df = \<lparr>df_nrows = 10, df_columns =
     [''a'', ''b'', ''c'', ''e'', ''f'', ''g'', ''h'', ''i'', ''j'', ''k'',
      ''l'', ''m'', ''n'', ''o'', ''p'', ''q'', ''r'', ''s'', ''u'', ''v'', ''Treat'']\<rparr>"

definition demo_env :: env where
  "demo_env =
     \<lparr>isdir = (\<lambda>d. d = ''data''),
      exists_path = (\<lambda>_. False),
      glob_recursive =
        (\<lambda>p. if p = ''data/**/*.csv'' then [''data/b.csv'', ''data/a.csv'', ''data/b.csv''] else []),
      getsize = (\<lambda>_. Inr 1000),
      read_table =
        (\<lambda>rd fp. if fp = ''data/a.csv'' then Inr panel_df
                 else if fp = ''data/b.csv'' then Inr notes_df
                 else if fp = ''data/w.csv'' then Inr wide_df
                 else Inl ''No columns to parse from file''),
      abspath = (\<lambda>p. ''/work/'' @ p),
      now = ''20250101_120000'',
      makedirs = (\<lambda>_. None),
      dump_json = (\<lambda>_ _. True),
      agent = (\<lambda>_. RunCompletes)\<rparr>"

definition demo_args :: args where
  "demo_args =
     \<lparr>data_dir = Some ''data'', data_glob = ''*.csv'', primary_file = None,
      catalog_only = True, data_path = None\<rparr>"

text \<open>The records \<open>infer_file\<close> gives for the two files, and a heap holding them.\<close>

definition rec_a :: candidate where
  "rec_a = scored_record ''data/a.csv'' ''.csv'' 1000 panel_df"

definition rec_b :: candidate where
  "rec_b = scored_record ''data/b.csv'' ''.csv'' 1000 notes_df"

definition rec_bad :: candidate where
  "rec_bad = error_record ''data/c.xlsx'' ''.xlsx'' 7 ''unsupported_ext''"

definition demo_heap :: heap where
  "demo_heap = snd (new_list [rec_bad, rec_b, rec_a] empty_heap)"

text \<open>The catalog that the run on the two files writes.\<close>

definition demo_doc :: catalog_doc where
  "demo_doc =
     \<lparr>doc_data_dir = ''/work/data'', doc_patterns = [''*.csv''],
      doc_selected = ''data/a.csv'', doc_files = [rec_a, rec_b]\<rparr>"

definition demo_cat_path :: string where
  "demo_cat_path = ''logs/dataset_catalog_20250101_120000.json''"

section \<open>Properties\<close>

subsection \<open>The sampler and scorer\<close>











text \<open>
  C4. Every record the sampler returns has either the \<open>error\<close> key and none of the
  keys \<open>nrows\<close>, \<open>ncols\<close>, \<open>columns\<close>, \<open>signals\<close>, \<open>score\<close>, or all five of these
  keys and no \<open>error\<close> key. Presence of the key is meant: the message of an exception
  may be the empty string.
\<close>

theorem error_xor_fields:
  assumes "infer_file E fp = Inr c"
  shows "((error c \<noteq> None) \<noteq>
            (nrows c \<noteq> None \<and> ncols c \<noteq> None \<and> columns c \<noteq> None \<and>
             signals c \<noteq> None \<and> score c \<noteq> None)) \<and>
         (error c \<noteq> None \<longrightarrow>
            nrows c = None \<and> ncols c = None \<and> columns c = None \<and>
            signals c = None \<and> score c = None)"
proof (cases "getsize E fp")
  case (Inl exn)
  then show ?thesis using assms by (simp add: infer_file_def)
next
  case sz: (Inr n)
  show ?thesis
  proof (cases "dispatch (lower (splitext_ext fp))")
    case None
    then have "c = error_record fp (lower (splitext_ext fp)) n ''unsupported_ext''"
      using assms sz by (simp add: infer_file_def)
    then show ?thesis by (simp add: error_record_def)
  next
    case (Some rd)
    show ?thesis
    proof (cases "read_table E rd fp")
      case (Inl msg)
      then have "c = error_record fp (lower (splitext_ext fp)) n msg"
        using assms sz Some by (simp add: infer_file_def)
      then show ?thesis by (simp add: error_record_def)
    next
      case (Inr df)
      then have "c = scored_record fp (lower (splitext_ext fp)) n df"
        using assms sz Some by (simp add: infer_file_def)
      then show ?thesis by (simp add: scored_record_def Let_def)
    qed
  qed
qed

lemma demo_infer_xlsx:
  "infer_file demo_env ''data/c.xlsx'' = Inr (error_record ''data/c.xlsx'' ''.xlsx'' 1000 ''unsupported_ext'')"
  by (simp add: infer_file_def demo_env_def dispatch_def lower_def lower_char_def
      splitext_ext_def basename_def Let_def)

theorem error_xor_fields_witness:
  "infer_file demo_env ''data/c.xlsx'' =
     Inr (error_record ''data/c.xlsx'' ''.xlsx'' 1000 ''unsupported_ext'') \<and>
   error (error_record ''data/c.xlsx'' ''.xlsx'' 1000 ''unsupported_ext'') = Some ''unsupported_ext'' \<and>
   nrows (error_record ''data/c.xlsx'' ''.xlsx'' 1000 ''unsupported_ext'') = None \<and>
   score (error_record ''data/c.xlsx'' ''.xlsx'' 1000 ''unsupported_ext'') = None"
  using error_xor_fields [OF demo_infer_xlsx] demo_infer_xlsx
  by (simp add: error_record_def)







text \<open>
  C3. The sampler does raise: \<open>os.path.getsize\<close> is called before the \<open>try\<close>
  block. For a path whose size cannot be read (a dangling symbolic link that the glob
  returned, say) the exception leaves \<open>infer_file\<close>, no record is produced, and the
  comprehension that builds the catalog is left as well.
\<close>

theorem getsize_exception_escapes:
  "infer_file (demo_env\<lparr>getsize := (\<lambda>_. Inl ''[Errno 2] No such file or directory'')\<rparr>)
     ''data/a.csv'' = Inl ''[Errno 2] No such file or directory'' \<and>
   build_catalog (demo_env\<lparr>getsize := (\<lambda>_. Inl ''[Errno 2] No such file or directory'')\<rparr>)
     [''data/a.csv'', ''data/b.csv''] = Inl ''[Errno 2] No such file or directory''"
  by (simp add: infer_file_def Let_def)

text \<open>
  What does hold of the sampler once the size was read: an extension outside the four
  supported ones gives the record with \<open>unsupported_ext\<close> whatever the readers would
  do, and an exception of the read becomes the error of the record.
\<close>

lemma unsupported_ext_no_read:
  assumes "getsize E fp = Inr sz" "dispatch (lower (splitext_ext fp)) = None"
  shows "infer_file (E\<lparr>read_table := r\<rparr>) fp =
           Inr (error_record fp (lower (splitext_ext fp)) sz ''unsupported_ext'')"
  using assms by (simp add: infer_file_def Let_def)

lemma read_exception_caught:
  assumes "getsize E fp = Inr sz" "dispatch (lower (splitext_ext fp)) = Some rd"
    "read_table E rd fp = Inl msg"
  shows "infer_file E fp = Inr (error_record fp (lower (splitext_ext fp)) sz msg)"
  using assms by (simp add: infer_file_def Let_def)

lemma dispatch_Some:
  "(dispatch e \<noteq> None) = (e \<in> {''.csv'', ''.parquet'', ''.feather'', ''.dta''})"
  by (simp add: dispatch_def)

lemma infer_file_total_given_size:
  "getsize E fp = Inr sz \<Longrightarrow> \<exists>c. infer_file E fp = Inr c \<and> path c = fp \<and> size_bytes c = sz"
  by (auto simp: infer_file_def Let_def error_record_def scored_record_def
      split: option.splits sum.splits)

subsection \<open>The primary selector\<close>



lemma sorted_le_last:
  fixes xs :: "'k::linorder list"
  shows "sorted xs \<Longrightarrow> x \<in> set xs \<Longrightarrow> x \<le> last xs"
  by (induction xs) auto

lemma last_filter_keep:
  "xs \<noteq> [] \<Longrightarrow> P (last xs) \<Longrightarrow> last (filter P xs) = last xs"
proof (induction xs)
  case Nil
  then show ?case by simp
next
  case (Cons x xs)
  show ?case
  proof (cases "xs = []")
    case True
    then show ?thesis using Cons.prems by simp
  next
    case False
    then have "last xs \<in> set xs" by simp
    moreover have "P (last xs)" using Cons.prems False by simp
    ultimately have "filter P xs \<noteq> []" by (auto simp: filter_empty_conv)
    then show ?thesis using Cons False by simp
  qed
qed

lemma sort_key_last_max:
  fixes k :: "'a \<Rightarrow> 'k::linorder"
  assumes "xs \<noteq> []"
  shows "last (sort_key k xs) = last (filter (\<lambda>y. k y = Max (k ` set xs)) xs)"
proof -
  let ?ys = "sort_key k xs"
  let ?m = "Max (k ` set xs)"
  have ne: "?ys \<noteq> []" using assms by (metis length_sort length_0_conv)
  have srt: "sorted (map k ?ys)" by simp
  have "\<forall>x \<in> set (map k ?ys). x \<le> last (map k ?ys)"
    using srt sorted_le_last by blast
  then have up: "\<forall>x \<in> set xs. k x \<le> k (last ?ys)"
    using ne by (simp add: last_map)
  have "last ?ys \<in> set xs" using ne last_in_set [of ?ys] by simp
  then have "?m = k (last ?ys)"
    using up by (intro Max_eqI) auto
  then have "last (filter (\<lambda>y. k y = ?m) ?ys) = last ?ys"
    using ne by (simp add: last_filter_keep)
  then show ?thesis by (simp add: sort_key_stable)
qed

lemma sort_reverse_hd:
  fixes k :: "'a \<Rightarrow> 'k::linorder"
  assumes "xs \<noteq> []"
  shows "hd (sort_reverse k xs) = hd (filter (\<lambda>y. k y = Max (k ` set xs)) xs)"
proof -
  have "hd (sort_reverse k xs) = last (sort_key k (rev xs))"
    by (simp add: sort_reverse_def hd_rev)
  also have "\<dots> = last (filter (\<lambda>y. k y = Max (k ` set (rev xs))) (rev xs))"
    using assms by (intro sort_key_last_max) simp
  also have "\<dots> = hd (filter (\<lambda>y. k y = Max (k ` set xs)) xs)"
    by (simp add: rev_filter [symmetric] last_rev)
  finally show ?thesis .
qed

lemma first_max_index:
  fixes k :: "'a \<Rightarrow> 'k::linorder"
  assumes "xs \<noteq> []"
  shows "\<exists>i < length xs. hd (sort_reverse k xs) = xs ! i \<and>
           (\<forall>j < length xs. k (xs ! j) \<le> k (xs ! i)) \<and>
           (\<forall>j < i. k (xs ! j) < k (xs ! i))"
proof -
  define m where "m = Max (k ` set xs)"
  have fin: "finite (k ` set xs)" and nonempty: "k ` set xs \<noteq> {}"
    using assms by auto
  have "m \<in> k ` set xs"
    unfolding m_def using fin nonempty by (rule Max_in)
  then obtain z where z: "z \<in> set xs" "k z = m" by auto
  have le: "\<And>x. x \<in> set xs \<Longrightarrow> k x \<le> m"
    unfolding m_def using fin by simp
  have "filter (\<lambda>y. k y = m) xs \<noteq> []"
    using z by (auto simp: filter_empty_conv)
  then obtain y ys where f: "filter (\<lambda>y. k y = m) xs = y # ys"
    by (cases "filter (\<lambda>y. k y = m) xs") auto
  from filter_eq_ConsD [OF f]
  obtain us vs where xs: "xs = us @ y # vs" and us: "\<forall>u \<in> set us. k u \<noteq> m" and y: "k y = m"
    by blast
  have hd_eq: "hd (sort_reverse k xs) = y"
    using sort_reverse_hd [OF assms, of k] f by (simp add: m_def)
  have at: "xs ! length us = y"
    by (simp add: xs)
  have below: "k (xs ! j) < k y" if j: "j < length us" for j
  proof -
    have "xs ! j = us ! j" using j by (simp add: xs nth_append)
    moreover have "us ! j \<in> set us" using j by simp
    ultimately have "k (xs ! j) \<noteq> m" using us by simp
    moreover have "xs ! j \<in> set xs" using j by (simp add: xs nth_append)
    ultimately show ?thesis using le [of "xs ! j"] y by simp
  qed
  have all: "k (xs ! j) \<le> k y" if "j < length xs" for j
    using le [of "xs ! j"] that y by simp
  have len: "length us < length xs" by (simp add: xs)
  show ?thesis
  proof (intro exI conjI)
    show "length us < length xs" by (rule len)
    show "hd (sort_reverse k xs) = xs ! length us" by (simp only: hd_eq at)
    show "\<forall>j < length xs. k (xs ! j) \<le> k (xs ! length us)"
      using all by (simp only: at) blast
    show "\<forall>j < length us. k (xs ! j) < k (xs ! length us)"
      using below by (simp only: at) blast
  qed
qed

lemma sort_reverse_sorted:
  fixes k :: "'a \<Rightarrow> 'k::linorder"
  shows "sorted (rev (map k (sort_reverse k xs)))"
  by (simp add: sort_reverse_def rev_map)

lemma sort_reverse_stable:
  fixes k :: "'a \<Rightarrow> 'k::linorder"
  shows "filter (\<lambda>y. k y = v) (sort_reverse k xs) = filter (\<lambda>y. k y = v) xs"
proof -
  have "filter (\<lambda>y. k y = v) (sort_reverse k xs) = rev (filter (\<lambda>y. k y = v) (sort_key k (rev xs)))"
    by (simp add: sort_reverse_def rev_filter)
  also have "\<dots> = rev (filter (\<lambda>y. k y = v) (rev xs))"
    by (simp only: sort_key_stable)
  also have "\<dots> = filter (\<lambda>y. k y = v) xs"
    by (simp add: rev_filter)
  finally show ?thesis .
qed

lemma sort_reverse_set: "set (sort_reverse k xs) = set xs"
  by (simp add: sort_reverse_def)

lemma sort_reverse_length: "length (sort_reverse k xs) = length xs"
  by (simp add: sort_reverse_def)


lemma sort_tuple_less: "(sort_tuple a < sort_tuple b) = spec_ranks_below a b"
  by (auto simp: sort_tuple_def spec_ranks_below_def score_or0_def less_prod_def)

lemma sort_tuple_le: "(sort_tuple a \<le> sort_tuple b) = (\<not> spec_ranks_below b a)"
  by (simp add: sort_tuple_less [symmetric] not_less)

lemma readable_iff: "readable c = (error c = None \<or> error c = Some [])"
  by (cases "error c") (auto simp: readable_def)

lemma select_auto_result:
  "fst (select_auto catalog h) =
     (if filter readable (cells h catalog) = [] then Inl NoReadableFiles
      else Inr (path (hd (sort_reverse sort_tuple (filter readable (cells h catalog))))))"
  by (simp add: select_auto_def new_list_def list_sort_def Let_def)

lemma select_explicit_result:
  "fst (select_explicit cand catalog h) =
     (case filter (matches cand) (cells h catalog) of
        [] \<Rightarrow> Inl PrimaryFileNotFound
      | c # _ \<Rightarrow> Inr (path c))"
  by (simp add: select_explicit_def new_list_def Let_def split: list.splits)

text \<open>
  C2. In automatic mode the selector keeps the records whose error is absent or empty.
  If none is left it fails with \<open>NoReadableFiles\<close>. Otherwise it returns the path of
  the record that no kept record outranks in the order (score, rows or 0, size) and
  that, among the records of equal rank, comes first in discovery order: every kept
  record before it ranks strictly below it.
\<close>

theorem automatic_selection:
  assumes "\<not> truthy (primary_file A)"
  shows "let valid = filter (\<lambda>c. error c = None \<or> error c = Some []) (cells h catalog) in
           (valid = [] \<longrightarrow> fst (choose_primary A catalog h) = Inl NoReadableFiles) \<and>
           (valid \<noteq> [] \<longrightarrow>
              (\<exists>i < length valid.
                 fst (choose_primary A catalog h) = Inr (path (valid ! i)) \<and>
                 (\<forall>j < length valid. \<not> spec_ranks_below (valid ! i) (valid ! j)) \<and>
                 (\<forall>j < i. spec_ranks_below (valid ! j) (valid ! i))))"
proof -
  define valid where "valid = filter readable (cells h catalog)"
  have same: "filter (\<lambda>c. error c = None \<or> error c = Some []) (cells h catalog) = valid"
    unfolding valid_def by (rule filter_cong) (simp_all add: readable_iff)
  have res: "fst (choose_primary A catalog h) =
      (if valid = [] then Inl NoReadableFiles
       else Inr (path (hd (sort_reverse sort_tuple valid))))"
    using assms by (simp add: choose_primary_def select_auto_result valid_def)
  have empty: "fst (choose_primary A catalog h) = Inl NoReadableFiles" if "valid = []"
    using that res by simp
  have best: "\<exists>i < length valid.
                 fst (choose_primary A catalog h) = Inr (path (valid ! i)) \<and>
                 (\<forall>j < length valid. \<not> spec_ranks_below (valid ! i) (valid ! j)) \<and>
                 (\<forall>j < i. spec_ranks_below (valid ! j) (valid ! i))"
    if ne: "valid \<noteq> []"
  proof -
    from first_max_index [OF ne, of sort_tuple]
    obtain i where i: "i < length valid"
      and hd: "hd (sort_reverse sort_tuple valid) = valid ! i"
      and top: "\<forall>j < length valid. sort_tuple (valid ! j) \<le> sort_tuple (valid ! i)"
      and first: "\<forall>j < i. sort_tuple (valid ! j) < sort_tuple (valid ! i)"
      by blast
    have "fst (choose_primary A catalog h) = Inr (path (valid ! i))"
      using res ne hd by simp
    moreover have "\<forall>j < length valid. \<not> spec_ranks_below (valid ! i) (valid ! j)"
      using top by (simp add: sort_tuple_le)
    moreover have "\<forall>j < i. spec_ranks_below (valid ! j) (valid ! i)"
      using first by (simp add: sort_tuple_less)
    ultimately show ?thesis using i by blast
  qed
  show ?thesis
    unfolding same Let_def using empty best by blast
qed


lemma demo_valid:
  "filter (\<lambda>c. error c = None \<or> error c = Some []) (cells demo_heap 0) = [rec_b, rec_a]"
  by (simp add: demo_heap_def new_list_def empty_heap_def rec_bad_def rec_a_def rec_b_def
      error_record_def scored_record_def Let_def)

lemma demo_rank: "spec_ranks_below rec_b rec_a"
  by code_simp

lemma demo_auto_mode: "\<not> truthy (primary_file demo_args)"
  by (simp add: demo_args_def)

theorem automatic_selection_witness:
  "\<not> truthy (primary_file demo_args) \<and>
   filter (\<lambda>c. error c = None \<or> error c = Some []) (cells demo_heap 0) = [rec_b, rec_a] \<and>
   spec_ranks_below rec_b rec_a \<and>
   fst (choose_primary demo_args 0 demo_heap) = Inr ''data/a.csv''"
proof -
  have inst: "\<exists>i < length [rec_b, rec_a].
      fst (choose_primary demo_args 0 demo_heap) = Inr (path ([rec_b, rec_a] ! i)) \<and>
      (\<forall>j < length [rec_b, rec_a]. \<not> spec_ranks_below ([rec_b, rec_a] ! i) ([rec_b, rec_a] ! j)) \<and>
      (\<forall>j < i. spec_ranks_below ([rec_b, rec_a] ! j) ([rec_b, rec_a] ! i))"
    using automatic_selection [OF demo_auto_mode, of demo_heap 0]
    unfolding demo_valid Let_def by (simp only: list.distinct simp_thms)
  then obtain i where i': "i < length [rec_b, rec_a]"
    and res: "fst (choose_primary demo_args 0 demo_heap) = Inr (path ([rec_b, rec_a] ! i))"
    and top: "\<forall>j < length [rec_b, rec_a]. \<not> spec_ranks_below ([rec_b, rec_a] ! i) ([rec_b, rec_a] ! j)"
    by blast
  have i: "i < 2" using i' by simp
  have path_a: "path rec_a = ''data/a.csv''"
    by (simp add: rec_a_def scored_record_def Let_def)
  have "i \<noteq> 0"
  proof
    assume "i = 0"
    then have "\<not> spec_ranks_below rec_b rec_a" using top [rule_format, of 1] by simp
    then show False using demo_rank by simp
  qed
  then have "i = 1" using i by simp
  then have "fst (choose_primary demo_args 0 demo_heap) = Inr ''data/a.csv''"
    using res path_a by simp
  then show ?thesis using demo_auto_mode demo_valid demo_rank by (intro conjI)
qed

lemma matches_path_only: "path a = path b \<Longrightarrow> matches cand a = matches cand b"
  by (simp add: matches_def)

lemma first_match_paths:
  "map path xs = map path ys \<Longrightarrow>
     map path (filter (matches cand) xs) = map path (filter (matches cand) ys)"
proof (induction xs arbitrary: ys)
  case Nil
  then show ?case by simp
next
  case (Cons x xs)
  then obtain y ys' where ys: "ys = y # ys'" "path x = path y" "map path xs = map path ys'"
    by (cases ys) auto
  then show ?case using Cons.IH [of ys'] matches_path_only [of x y cand] by simp
qed

lemma select_explicit_paths:
  assumes "map path (cells h' catalog') = map path (cells h catalog)"
  shows "fst (select_explicit cand catalog' h') = fst (select_explicit cand catalog h)"
proof -
  have "map path (filter (matches cand) (cells h' catalog')) =
        map path (filter (matches cand) (cells h catalog))"
    using assms by (rule first_match_paths)
  then show ?thesis
    by (auto simp: select_explicit_result split: list.splits)
qed

text \<open>
  C6. With an override the selector takes the records whose path equals the given text
  or whose base name equals its base name. If there is none it fails with
  \<open>PrimaryFileNotFound\<close>; otherwise it returns the path of the first of them. The
  result depends on the paths of the catalog only: scores and errors play no part.
\<close>

theorem explicit_selection:
  assumes "primary_file A = Some cand" "cand \<noteq> []"
  shows "let matched = filter (\<lambda>c. path c = cand \<or> basename (path c) = basename cand)
                              (cells h catalog) in
           (matched = [] \<longrightarrow> fst (choose_primary A catalog h) = Inl PrimaryFileNotFound) \<and>
           (\<forall>c rest. matched = c # rest \<longrightarrow> fst (choose_primary A catalog h) = Inr (path c)) \<and>
           (\<forall>(h'::heap) catalog'. map path (cells h' catalog') = map path (cells h catalog) \<longrightarrow>
              fst (choose_primary A catalog' h') = fst (choose_primary A catalog h))"
proof -
  have mode: "\<And>k g. choose_primary A k g = select_explicit cand k g"
    using assms by (simp add: choose_primary_def)
  have same: "filter (\<lambda>c. path c = cand \<or> basename (path c) = basename cand) (cells h catalog)
                = filter (matches cand) (cells h catalog)"
    by (rule filter_cong) (simp_all add: matches_def)
  have none: "fst (choose_primary A catalog h) = Inl PrimaryFileNotFound"
    if "filter (matches cand) (cells h catalog) = []"
    using that by (simp add: mode select_explicit_result)
  have some: "fst (choose_primary A catalog h) = Inr (path c)"
    if "filter (matches cand) (cells h catalog) = c # rest" for c rest
    using that by (simp add: mode select_explicit_result)
  have frame: "fst (choose_primary A catalog' h') = fst (choose_primary A catalog h)"
    if "map path (cells h' catalog') = map path (cells h catalog)" for h' :: heap and catalog'
    using select_explicit_paths [OF that, of cand] by (simp only: mode)
  show ?thesis
    unfolding same Let_def
  proof (intro conjI allI impI)
    assume "filter (matches cand) (cells h catalog) = []"
    then show "fst (choose_primary A catalog h) = Inl PrimaryFileNotFound" by (rule none)
  next
    fix c rest assume "filter (matches cand) (cells h catalog) = c # rest"
    then show "fst (choose_primary A catalog h) = Inr (path c)" by (rule some)
  next
    fix h' :: heap and catalog' assume "map path (cells h' catalog') = map path (cells h catalog)"
    then show "fst (choose_primary A catalog' h') = fst (choose_primary A catalog h)"
      by (rule frame)
  qed
qed

lemma demo_override: "primary_file (demo_args\<lparr>primary_file := Some ''c.xlsx''\<rparr>) = Some ''c.xlsx''"
  by simp

lemma demo_matched:
  "filter (\<lambda>c. path c = ''c.xlsx'' \<or> basename (path c) = basename ''c.xlsx'') (cells demo_heap 0)
     = [rec_bad]"
  by (simp add: demo_heap_def new_list_def empty_heap_def rec_bad_def rec_a_def rec_b_def
      error_record_def scored_record_def Let_def basename_def)

theorem explicit_selection_witness:
  "primary_file (demo_args\<lparr>primary_file := Some ''c.xlsx''\<rparr>) = Some ''c.xlsx'' \<and>
   ''c.xlsx'' \<noteq> [] \<and>
   filter (\<lambda>c. path c = ''c.xlsx'' \<or> basename (path c) = basename ''c.xlsx'') (cells demo_heap 0)
     = [rec_bad] \<and>
   error rec_bad = Some ''unsupported_ext'' \<and>
   fst (choose_primary (demo_args\<lparr>primary_file := Some ''c.xlsx''\<rparr>) 0 demo_heap)
     = Inr ''data/c.xlsx''"
proof -
  have ne: "''c.xlsx'' \<noteq> []" by simp
  have "\<forall>c rest. [rec_bad] = c # rest \<longrightarrow>
          fst (choose_primary (demo_args\<lparr>primary_file := Some ''c.xlsx''\<rparr>) 0 demo_heap) = Inr (path c)"
    using explicit_selection [OF demo_override ne, of demo_heap 0]
    unfolding demo_matched Let_def by (elim conjE)
  then have "fst (choose_primary (demo_args\<lparr>primary_file := Some ''c.xlsx''\<rparr>) 0 demo_heap)
               = Inr (path rec_bad)"
    by blast
  moreover have "path rec_bad = ''data/c.xlsx''" "error rec_bad = Some ''unsupported_ext''"
    by (simp_all add: rec_bad_def error_record_def)
  ultimately show ?thesis using demo_override ne demo_matched by simp
qed

subsection \<open>The file enumerator\<close>

lemma extend_loop:
  "foldl (\<lambda>fs pat. fs @ g pat) acc ps = acc @ concat (map g ps)"
  by (induction ps arbitrary: acc) simp_all

lemma discover_files_set:
  "set (discover_files E dir ps) = (\<Union>pat \<in> set ps. set (glob_recursive E (glob_arg dir pat)))"
  by (simp add: discover_files_def extend_loop)

lemma discover_files_sorted: "sorted (discover_files E dir ps)"
  by (simp add: discover_files_def)

lemma discover_files_distinct: "distinct (discover_files E dir ps)"
  by (simp add: discover_files_def)

lemma discover_files_empty:
  "(discover_files E dir ps = []) = ((\<Union>pat \<in> set ps. set (glob_recursive E (glob_arg dir pat))) = {})"
  using discover_files_set [of E dir ps] by (metis set_empty)

text \<open>A pattern that does not start with the separator is searched under the directory.\<close>

lemma glob_arg_rooted: "take 1 pat \<noteq> ''/'' \<Longrightarrow> glob_arg dir pat = rooted_glob dir pat"
  by (simp add: glob_arg_def path_join_def join_step_def rooted_glob_def)

lemma glob_arg_absolute: "take 1 pat = ''/'' \<Longrightarrow> glob_arg dir pat = pat"
  by (simp add: glob_arg_def path_join_def join_step_def)

text \<open>
  The enumerator on patterns that are relative: the sorted list of the distinct paths
  that the rooted searches return, and the two failures.
\<close>

lemma enumerate_files_relative:
  assumes "\<forall>pat \<in> set (patterns_of g). take 1 pat \<noteq> ''/''"
  shows "(\<not> isdir E dir \<longrightarrow> enumerate_files E dir g = Inl DirectoryNotFound) \<and>
         (isdir E dir \<longrightarrow>
            (let found = (\<Union>pat \<in> set (patterns_of g). set (glob_recursive E (rooted_glob dir pat)))
             in (found = {} \<longrightarrow> enumerate_files E dir g = Inl NoFilesFound) \<and>
                (found \<noteq> {} \<longrightarrow>
                   (\<exists>files. enumerate_files E dir g = Inr files \<and> set files = found \<and>
                      sorted files \<and> distinct files))))"
proof -
  have "(\<Union>pat \<in> set (patterns_of g). set (glob_recursive E (glob_arg dir pat))) =
        (\<Union>pat \<in> set (patterns_of g). set (glob_recursive E (rooted_glob dir pat)))"
    using assms by (simp add: glob_arg_rooted)
  then show ?thesis
    using discover_files_set [of E dir "patterns_of g"]
      discover_files_empty [of E dir "patterns_of g"]
    by (simp add: enumerate_files_def Let_def discover_files_sorted discover_files_distinct)
qed

text \<open>
  C5. The search is not rooted at the directory for every pattern list: a pattern that
  starts with the separator replaces the directory in \<open>os.path.join\<close>, so the glob runs
  on the pattern alone and the enumerator returns paths outside the directory.
\<close>

theorem absolute_pattern_escapes_root:
  "glob_arg ''data'' ''/tmp/*.csv'' = ''/tmp/*.csv'' \<and>
   rooted_glob ''data'' ''/tmp/*.csv'' = ''data/**//tmp/*.csv'' \<and>
   enumerate_files
     (demo_env\<lparr>glob_recursive := (\<lambda>p. if p = ''/tmp/*.csv'' then [''/tmp/x.csv''] else [])\<rparr>)
     ''data'' ''/tmp/*.csv'' = Inr [''/tmp/x.csv'']"
  by (simp add: glob_arg_def path_join_def join_step_def rooted_glob_def enumerate_files_def
      discover_files_def demo_env_def patterns_of_def strip_def is_space_def Let_def)

subsection \<open>The catalog and its list object\<close>

lemma infer_file_path: "infer_file E fp = Inr c \<Longrightarrow> path c = fp"
  by (auto simp: infer_file_def Let_def error_record_def scored_record_def
      split: option.splits sum.splits)

lemma build_catalog_paths: "build_catalog E fps = Inr recs \<Longrightarrow> map path recs = fps"
proof (induction fps arbitrary: recs)
  case Nil
  then show ?case by simp
next
  case (Cons fp fps)
  then obtain c cs where parts: "infer_file E fp = Inr c" "build_catalog E fps = Inr cs"
    "recs = c # cs"
    by (auto split: sum.splits)
  then show ?case using Cons.IH [of cs] infer_file_path [of E fp c] by simp
qed

lemma build_catalog_each:
  "build_catalog E fps = Inr recs \<Longrightarrow> map (infer_file E) fps = map Inr recs"
proof (induction fps arbitrary: recs)
  case Nil
  then show ?case by simp
next
  case (Cons fp fps)
  then obtain c cs where parts: "infer_file E fp = Inr c" "build_catalog E fps = Inr cs"
    "recs = c # cs"
    by (auto split: sum.splits)
  then show ?case using Cons.IH [of cs] by simp
qed

text \<open>
  Neither branch of the selector writes to the cell of the catalog: the comprehension
  allocates a new cell, and the sort works on that cell.
\<close>

lemma select_explicit_frame:
  "catalog < next_free h \<Longrightarrow> cells (snd (select_explicit cand catalog h)) catalog = cells h catalog"
  by (simp add: select_explicit_def new_list_def Let_def split: list.splits)

lemma select_auto_frame:
  "catalog < next_free h \<Longrightarrow> cells (snd (select_auto catalog h)) catalog = cells h catalog"
  by (simp add: select_auto_def new_list_def list_sort_def Let_def)

lemma choose_primary_frame:
  "catalog < next_free h \<Longrightarrow> cells (snd (choose_primary A catalog h)) catalog = cells h catalog"
  by (simp add: choose_primary_def select_explicit_frame select_auto_frame)

text \<open>The sorted list is in the new cell.\<close>

lemma select_auto_sorted_cell:
  assumes "filter readable (cells h catalog) \<noteq> []"
  shows "cells (snd (select_auto catalog h)) (next_free h) =
           sort_reverse sort_tuple (filter readable (cells h catalog))"
  using assms by (simp add: select_auto_def new_list_def list_sort_def Let_def)

lemma choose_primary_selectable:
  "fst (choose_primary A catalog h) =
     (if primary_selectable A (cells h catalog)
      then fst (choose_primary A catalog h)
      else Inl (if truthy (primary_file A) then PrimaryFileNotFound else NoReadableFiles))"
  by (auto simp: choose_primary_def primary_selectable_def select_auto_result
      select_explicit_result list_ex_iff filter_empty_conv split: list.splits)

lemma choose_primary_selected:
  assumes "primary_selectable A (cells h catalog)"
  shows "\<exists>sel. fst (choose_primary A catalog h) = Inr sel"
proof (cases "truthy (primary_file A)")
  case True
  then have "filter (matches (str_of (primary_file A))) (cells h catalog) \<noteq> []"
    using assms by (auto simp: primary_selectable_def list_ex_iff filter_empty_conv)
  then show ?thesis using True
    by (auto simp: choose_primary_def select_explicit_result split: list.splits)
next
  case False
  then have "filter readable (cells h catalog) \<noteq> []"
    using assms by (auto simp: primary_selectable_def list_ex_iff filter_empty_conv)
  then show ?thesis using False
    by (simp add: choose_primary_def select_auto_result)
qed

subsection \<open>The run as a whole\<close>

text \<open>The run in directory mode, once the files are enumerated and sampled.\<close>

lemma main_directory_mode:
  assumes "truthy (data_dir A)"
    and "enumerate_files E (str_of (data_dir A)) (data_glob A) = Inr files"
    and "build_catalog E files = Inr recs"
  shows "main E A =
    (case fst (choose_primary A 0 (snd (new_list recs empty_heap))) of
       Inl err \<Rightarrow> fail err
     | Inr selected \<Rightarrow> save_and_continue E A (patterns_of (data_glob A)) recs selected)"
proof -
  define h1 where "h1 = \<lparr>cells = (\<lambda>_. [])(0 := recs), next_free = Suc 0\<rparr>"
  have dir: "isdir E (str_of (data_dir A))"
    and files: "discover_files E (str_of (data_dir A)) (patterns_of (data_glob A)) = files"
    and ne: "files \<noteq> []"
    using assms(2) by (auto simp: enumerate_files_def Let_def split: if_splits)
  have alloc: "new_list recs empty_heap = (0, h1)"
    by (simp add: new_list_def empty_heap_def h1_def)
  have "0 < next_free h1" and "cells h1 0 = recs"
    by (simp_all add: h1_def)
  then have kept: "cells (snd (choose_primary A 0 h1)) 0 = recs"
    by (simp add: choose_primary_frame)
  have "main E A =
    (case build_catalog E files of
       Inl exn \<Rightarrow> crash exn
     | Inr recs \<Rightarrow>
         (let (catalog, h1) = new_list recs empty_heap;
              (sel, h2) = choose_primary A catalog h1
          in case sel of
               Inl err \<Rightarrow> fail err
             | Inr selected \<Rightarrow>
                 save_and_continue E A (patterns_of (data_glob A)) (cells h2 catalog) selected))"
    using assms(1) dir files ne by (simp add: main_def Let_def)
  also have "\<dots> =
    (case fst (choose_primary A 0 h1) of
       Inl err \<Rightarrow> fail err
     | Inr selected \<Rightarrow> save_and_continue E A (patterns_of (data_glob A)) recs selected)"
    using kept by (simp add: assms(3) alloc split_beta split: sum.splits)
  finally show ?thesis by (simp add: alloc)
qed

lemma main_single_file_saved: "\<not> truthy (data_dir A) \<Longrightarrow> saved (main E A) = None"
  by (simp add: main_def fail_def run_agent_def)

lemma main_enumerate_fails:
  "truthy (data_dir A) \<Longrightarrow> enumerate_files E (str_of (data_dir A)) (data_glob A) = Inl e \<Longrightarrow>
     main E A = fail e"
  by (auto simp: main_def enumerate_files_def Let_def split: if_splits)

lemma main_sampler_raises:
  "truthy (data_dir A) \<Longrightarrow> enumerate_files E (str_of (data_dir A)) (data_glob A) = Inr files \<Longrightarrow>
     build_catalog E files = Inl exn \<Longrightarrow> main E A = crash exn"
  by (auto simp: main_def enumerate_files_def Let_def split: if_splits)

lemma save_and_continue_saved:
  "saved (save_and_continue E A ps fs sel) = Some (p, doc) \<Longrightarrow>
     doc_files doc = fs \<and> doc_selected doc = sel \<and> doc_patterns doc = ps"
  by (auto simp: save_and_continue_def crash_def run_agent_def Let_def
      split: option.splits if_splits)

lemma main_saved_files:
  assumes "saved (main E A) = Some (p, doc)"
  shows "\<exists>files. enumerate_files E (str_of (data_dir A)) (data_glob A) = Inr files \<and>
           build_catalog E files = Inr (doc_files doc)"
proof -
  have dirmode: "truthy (data_dir A)"
    using assms main_single_file_saved [of A E] by auto
  show ?thesis
  proof (cases "enumerate_files E (str_of (data_dir A)) (data_glob A)")
    case (Inl e)
    then show ?thesis using assms main_enumerate_fails [OF dirmode Inl] by (simp add: fail_def)
  next
    case files: (Inr files)
    show ?thesis
    proof (cases "build_catalog E files")
      case (Inl exn)
      then show ?thesis
        using assms main_sampler_raises [OF dirmode files Inl] by (simp add: crash_def)
    next
      case (Inr recs)
      have "doc_files doc = recs"
      proof (cases "fst (choose_primary A 0 (snd (new_list recs empty_heap)))")
        case (Inl err)
        then show ?thesis
          using assms main_directory_mode [OF dirmode files Inr] by (simp add: fail_def)
      next
        case sel: (Inr selected)
        then have "saved (save_and_continue E A (patterns_of (data_glob A)) recs selected)
                     = Some (p, doc)"
          using assms main_directory_mode [OF dirmode files Inr] by simp
        then show ?thesis using save_and_continue_saved by blast
      qed
      then show ?thesis using files Inr by simp
    qed
  qed
qed

lemma enumerate_files_order:
  "enumerate_files E dir g = Inr files \<Longrightarrow> sorted files \<and> distinct files"
  by (auto simp: enumerate_files_def Let_def discover_files_sorted discover_files_distinct
      split: if_splits)

text \<open>
  C9. The list of records in the persisted catalog is the list the sampler built from
  the enumerated files, in their sorted and duplicate-free order: the selector leaves
  the cell of the catalog as it was, and whenever a catalog is written its \<open>files\<close>
  are the records of the enumerated paths, one per path and in the same order.
\<close>

theorem catalog_keeps_discovery_order:
  "(catalog < next_free h \<longrightarrow>
      cells (snd (choose_primary A catalog h)) catalog = cells h catalog) \<and>
   (saved (main E A) = Some (p, doc) \<longrightarrow>
      (\<exists>files. enumerate_files E (str_of (data_dir A)) (data_glob A) = Inr files \<and>
         build_catalog E files = Inr (doc_files doc) \<and>
         map path (doc_files doc) = files \<and> sorted files \<and> distinct files))"
proof (intro conjI impI)
  assume "catalog < next_free h"
  then show "cells (snd (choose_primary A catalog h)) catalog = cells h catalog"
    by (rule choose_primary_frame)
next
  assume "saved (main E A) = Some (p, doc)"
  then obtain files where f: "enumerate_files E (str_of (data_dir A)) (data_glob A) = Inr files"
    and b: "build_catalog E files = Inr (doc_files doc)"
    using main_saved_files by blast
  have "map path (doc_files doc) = files" using b by (rule build_catalog_paths)
  moreover have "sorted files \<and> distinct files" using f by (rule enumerate_files_order)
  ultimately show "\<exists>files. enumerate_files E (str_of (data_dir A)) (data_glob A) = Inr files \<and>
         build_catalog E files = Inr (doc_files doc) \<and>
         map path (doc_files doc) = files \<and> sorted files \<and> distinct files"
    using f b by blast
qed

lemma demo_main:
  "main demo_env demo_args =
     \<lparr>status = Return 0, printed = None, saved = Some (demo_cat_path, demo_doc),
      agent_input = None\<rparr>"
  by code_simp

lemma demo_enumerate:
  "enumerate_files demo_env (str_of (data_dir demo_args)) (data_glob demo_args)
     = Inr [''data/a.csv'', ''data/b.csv'']"
  by code_simp

lemma demo_heap_cell: "cells demo_heap 0 = [rec_bad, rec_b, rec_a]"
  by (simp add: demo_heap_def new_list_def empty_heap_def)

lemma demo_heap_next: "0 < next_free demo_heap"
  by (simp add: demo_heap_def new_list_def empty_heap_def)

theorem catalog_keeps_discovery_order_witness:
  "0 < next_free demo_heap \<and>
   cells (snd (choose_primary demo_args 0 demo_heap)) 0 = [rec_bad, rec_b, rec_a] \<and>
   saved (main demo_env demo_args) = Some (demo_cat_path, demo_doc) \<and>
   map path (doc_files demo_doc) = [''data/a.csv'', ''data/b.csv'']"
proof -
  have sv: "saved (main demo_env demo_args) = Some (demo_cat_path, demo_doc)"
    by (simp add: demo_main)
  note inst = catalog_keeps_discovery_order
    [of 0 demo_heap demo_args demo_env demo_cat_path demo_doc]
  from inst have "cells (snd (choose_primary demo_args 0 demo_heap)) 0 = cells demo_heap 0"
    using demo_heap_next by (elim conjE) (rule mp)
  then have kept: "cells (snd (choose_primary demo_args 0 demo_heap)) 0 = [rec_bad, rec_b, rec_a]"
    by (simp only: demo_heap_cell)
  from inst have "\<exists>files.
      enumerate_files demo_env (str_of (data_dir demo_args)) (data_glob demo_args) = Inr files \<and>
      build_catalog demo_env files = Inr (doc_files demo_doc) \<and>
      map path (doc_files demo_doc) = files \<and> sorted files \<and> distinct files"
    using sv by (elim conjE) (rule mp)
  then have order: "map path (doc_files demo_doc) = [''data/a.csv'', ''data/b.csv'']"
    by (simp only: demo_enumerate) simp
  show ?thesis using demo_heap_next kept sv order by (intro conjI)
qed

subsection \<open>The catalog dump\<close>

lemma infer_file_dump: "infer_file (E\<lparr>dump_json := w\<rparr>) fp = infer_file E fp"
  by (simp add: infer_file_def Let_def cong: sum.case_cong option.case_cong)

lemma build_catalog_dump: "build_catalog (E\<lparr>dump_json := w\<rparr>) fps = build_catalog E fps"
  by (induction fps) (simp_all add: infer_file_dump cong: sum.case_cong)

lemma enumerate_files_dump:
  "enumerate_files (E\<lparr>dump_json := w\<rparr>) dir g = enumerate_files E dir g"
  by (simp add: enumerate_files_def discover_files_def)

lemma save_and_continue_dump:
  "status (save_and_continue (E\<lparr>dump_json := w\<rparr>) A ps fs sel) =
     status (save_and_continue E A ps fs sel) \<and>
   printed (save_and_continue (E\<lparr>dump_json := w\<rparr>) A ps fs sel) =
     printed (save_and_continue E A ps fs sel) \<and>
   agent_input (save_and_continue (E\<lparr>dump_json := w\<rparr>) A ps fs sel) =
     agent_input (save_and_continue E A ps fs sel)"
  by (simp add: save_and_continue_def run_agent_def crash_def Let_def split: option.splits)

lemma save_and_continue_write_fails:
  "saved (save_and_continue (E\<lparr>dump_json := (\<lambda>_ _. False)\<rparr>) A ps fs sel) = None"
  by (simp add: save_and_continue_def run_agent_def crash_def Let_def split: option.splits)

lemma main_dump_shape:
  "(main (E\<lparr>dump_json := w\<rparr>) A = main E A \<and> saved (main E A) = None) \<or>
   (\<exists>ps fs sel. main E A = save_and_continue E A ps fs sel \<and>
      main (E\<lparr>dump_json := w\<rparr>) A = save_and_continue (E\<lparr>dump_json := w\<rparr>) A ps fs sel)"
proof (cases "truthy (data_dir A)")
  case False
  then show ?thesis by (simp add: main_def fail_def run_agent_def)
next
  case dirmode: True
  let ?E = "E\<lparr>dump_json := w\<rparr>"
  show ?thesis
  proof (cases "enumerate_files E (str_of (data_dir A)) (data_glob A)")
    case (Inl e)
    then have "main E A = fail e" "main ?E A = fail e"
      using dirmode by (simp_all add: main_enumerate_fails enumerate_files_dump)
    then show ?thesis by (simp add: fail_def)
  next
    case files: (Inr files)
    then have files': "enumerate_files ?E (str_of (data_dir A)) (data_glob A) = Inr files"
      by (simp add: enumerate_files_dump)
    show ?thesis
    proof (cases "build_catalog E files")
      case (Inl exn)
      then have "main E A = crash exn" "main ?E A = crash exn"
        using dirmode files files'
        by (simp_all add: main_sampler_raises build_catalog_dump)
      then show ?thesis by (simp add: crash_def)
    next
      case (Inr recs)
      then have recs': "build_catalog ?E files = Inr recs"
        by (simp add: build_catalog_dump)
      show ?thesis
      proof (cases "fst (choose_primary A 0 (snd (new_list recs empty_heap)))")
        case (Inl err)
        then have "main E A = fail err" "main ?E A = fail err"
          by (simp_all add: main_directory_mode [OF dirmode files Inr]
              main_directory_mode [OF dirmode files' recs'])
        then show ?thesis by (simp add: fail_def)
      next
        case sel: (Inr selected)
        then have "main E A = save_and_continue E A (patterns_of (data_glob A)) recs selected"
          "main ?E A = save_and_continue ?E A (patterns_of (data_glob A)) recs selected"
          by (simp_all add: main_directory_mode [OF dirmode files Inr]
              main_directory_mode [OF dirmode files' recs'])
        then show ?thesis by blast
      qed
    qed
  qed
qed

lemma main_dump:
  "status (main (E\<lparr>dump_json := w\<rparr>) A) = status (main E A) \<and>
   printed (main (E\<lparr>dump_json := w\<rparr>) A) = printed (main E A) \<and>
   agent_input (main (E\<lparr>dump_json := w\<rparr>) A) = agent_input (main E A)"
  using main_dump_shape [of w E A] save_and_continue_dump [of w E A]
  by (elim disjE exE conjE) simp_all

lemma main_write_fails: "saved (main (E\<lparr>dump_json := (\<lambda>_ _. False)\<rparr>) A) = None"
  using main_dump_shape [of "\<lambda>_ _. False" E A] save_and_continue_write_fails [of E A]
  by (elim disjE exE conjE) simp_all

text \<open>
  C8. A failing dump is passed over: whatever the write does, the run ends the same way
  (same return or exception, same message, same data path for the agent); a write that
  fails only leaves no saved catalog.
\<close>

theorem write_failure_ignored:
  "status (main (E\<lparr>dump_json := w\<rparr>) A) = status (main E A) \<and>
   printed (main (E\<lparr>dump_json := w\<rparr>) A) = printed (main E A) \<and>
   agent_input (main (E\<lparr>dump_json := w\<rparr>) A) = agent_input (main E A) \<and>
   saved (main (E\<lparr>dump_json := (\<lambda>_ _. False)\<rparr>) A) = None"
  using main_dump [of w E A] main_write_fails [of E A] by simp

theorem write_failure_ignored_witness:
  "status (main demo_env demo_args) = Return 0 \<and>
   saved (main demo_env demo_args) = Some (demo_cat_path, demo_doc) \<and>
   status (main (demo_env\<lparr>dump_json := (\<lambda>_ _. False)\<rparr>) demo_args) = Return 0 \<and>
   agent_input (main (demo_env\<lparr>dump_json := (\<lambda>_ _. False)\<rparr>) demo_args) = None \<and>
   saved (main (demo_env\<lparr>dump_json := (\<lambda>_ _. False)\<rparr>) demo_args) = None"
  using write_failure_ignored [of "\<lambda>_ _. False" demo_env demo_args]
  by (simp add: demo_main)

subsection \<open>The catalog-only run\<close>

lemma save_and_continue_catalog_only:
  assumes "catalog_only A" "makedirs E ''logs'' = None"
  shows "save_and_continue E A ps fs sel =
     (let p = ''logs/dataset_catalog_'' @ now E @ ''.json'';
          doc = \<lparr>doc_data_dir = abspath E (str_of (data_dir A)), doc_patterns = ps,
                 doc_selected = sel, doc_files = fs\<rparr>
      in \<lparr>status = Return 0, printed = None,
          saved = (if dump_json E p doc then Some (p, doc) else None), agent_input = None\<rparr>)"
  using assms by (simp add: save_and_continue_def Let_def path_join_def join_step_def)

lemma fresh_catalog_cell: "cells (snd (new_list recs empty_heap)) 0 = recs"
  by (simp add: new_list_def empty_heap_def)

text \<open>
  C7, as the code has it. The catalog-only flag takes effect after the primary file is
  chosen. When the files were enumerated and sampled, the \<open>logs\<close> directory could be
  made and a primary file can be selected, a catalog-only run dumps the catalog (it is
  saved unless the write fails), returns 0 and never constructs the agent. When no
  primary file can be selected, the run prints the error of the selector and returns 1
  before the dump: nothing is saved.
\<close>

theorem catalog_only_run:
  assumes "catalog_only A" "truthy (data_dir A)"
    and "enumerate_files E (str_of (data_dir A)) (data_glob A) = Inr files"
    and "build_catalog E files = Inr recs"
    and "makedirs E ''logs'' = None"
  shows "(primary_selectable A recs \<longrightarrow>
            status (main E A) = Return 0 \<and> printed (main E A) = None \<and>
            agent_input (main E A) = None \<and>
            (\<exists>sel. let p = ''logs/dataset_catalog_'' @ now E @ ''.json'';
                        doc = \<lparr>doc_data_dir = abspath E (str_of (data_dir A)),
                               doc_patterns = patterns_of (data_glob A),
                               doc_selected = sel, doc_files = recs\<rparr>
                    in fst (choose_primary A 0 (snd (new_list recs empty_heap))) = Inr sel \<and>
                       saved (main E A) = (if dump_json E p doc then Some (p, doc) else None))) \<and>
         (\<not> primary_selectable A recs \<longrightarrow>
            status (main E A) = Return 1 \<and>
            printed (main E A) =
              Some (if truthy (primary_file A) then PrimaryFileNotFound else NoReadableFiles) \<and>
            saved (main E A) = None \<and> agent_input (main E A) = None)"
proof (intro conjI impI)
  assume ok: "primary_selectable A recs"
  then obtain sel where sel: "fst (choose_primary A 0 (snd (new_list recs empty_heap))) = Inr sel"
    using choose_primary_selected [of A "snd (new_list recs empty_heap)" 0]
    by (auto simp: fresh_catalog_cell)
  have run: "main E A = save_and_continue E A (patterns_of (data_glob A)) recs sel"
    by (simp add: main_directory_mode [OF assms(2,3,4)] sel)
  note shape = save_and_continue_catalog_only [OF assms(1,5), of "patterns_of (data_glob A)" recs sel]
  show "status (main E A) = Return 0" "printed (main E A) = None" "agent_input (main E A) = None"
    by (simp_all add: run shape Let_def)
  show "\<exists>sel. let p = ''logs/dataset_catalog_'' @ now E @ ''.json'';
                        doc = \<lparr>doc_data_dir = abspath E (str_of (data_dir A)),
                               doc_patterns = patterns_of (data_glob A),
                               doc_selected = sel, doc_files = recs\<rparr>
                    in fst (choose_primary A 0 (snd (new_list recs empty_heap))) = Inr sel \<and>
                       saved (main E A) = (if dump_json E p doc then Some (p, doc) else None)"
    by (rule exI [of _ sel]) (simp add: run shape Let_def sel)
next
  assume no: "\<not> primary_selectable A recs"
  let ?err = "if truthy (primary_file A) then PrimaryFileNotFound else NoReadableFiles"
  have "fst (choose_primary A 0 (snd (new_list recs empty_heap))) = Inl ?err"
    using no choose_primary_selectable [of A 0 "snd (new_list recs empty_heap)"]
    by (simp add: fresh_catalog_cell)
  then have run: "main E A = fail ?err"
    by (simp add: main_directory_mode [OF assms(2,3,4)])
  show "status (main E A) = Return 1"
    "printed (main E A) =
       Some (if truthy (primary_file A) then PrimaryFileNotFound else NoReadableFiles)"
    "saved (main E A) = None" "agent_input (main E A) = None"
    by (simp_all add: run fail_def)
qed

text \<open>
  The claim as stated fails: both CSV files of the directory are unreadable, the flag is
  set, and the run returns 1 with no catalog saved.
\<close>

theorem catalog_only_without_catalog:
  "catalog_only demo_args \<and> truthy (data_dir demo_args) \<and>
   isdir (demo_env\<lparr>read_table := (\<lambda>_ _. Inl ''Error tokenizing data'')\<rparr>)
     (str_of (data_dir demo_args)) \<and>
   main (demo_env\<lparr>read_table := (\<lambda>_ _. Inl ''Error tokenizing data'')\<rparr>) demo_args =
     \<lparr>status = Return 1, printed = Some NoReadableFiles, saved = None, agent_input = None\<rparr>"
  by code_simp

lemma demo_build: "build_catalog demo_env [''data/a.csv'', ''data/b.csv''] = Inr [rec_a, rec_b]"
  by code_simp

lemma demo_selectable: "primary_selectable demo_args [rec_a, rec_b]"
  by code_simp

lemma demo_flags: "catalog_only demo_args" "truthy (data_dir demo_args)"
  "makedirs demo_env ''logs'' = None"
  by (simp_all add: demo_args_def demo_env_def)

theorem catalog_only_run_witness:
  "catalog_only demo_args \<and> truthy (data_dir demo_args) \<and>
   enumerate_files demo_env (str_of (data_dir demo_args)) (data_glob demo_args)
     = Inr [''data/a.csv'', ''data/b.csv''] \<and>
   build_catalog demo_env [''data/a.csv'', ''data/b.csv''] = Inr [rec_a, rec_b] \<and>
   makedirs demo_env ''logs'' = None \<and>
   primary_selectable demo_args [rec_a, rec_b] \<and>
   status (main demo_env demo_args) = Return 0 \<and>
   agent_input (main demo_env demo_args) = None"
proof -
  note inst = catalog_only_run [OF demo_flags(1,2) demo_enumerate demo_build demo_flags(3)]
  from inst have "primary_selectable demo_args [rec_a, rec_b] \<longrightarrow>
      status (main demo_env demo_args) = Return 0 \<and> printed (main demo_env demo_args) = None \<and>
      agent_input (main demo_env demo_args) = None \<and>
      (\<exists>sel. let p = ''logs/dataset_catalog_'' @ now demo_env @ ''.json'';
                  doc = \<lparr>doc_data_dir = abspath demo_env (str_of (data_dir demo_args)),
                         doc_patterns = patterns_of (data_glob demo_args),
                         doc_selected = sel, doc_files = [rec_a, rec_b]\<rparr>
              in fst (choose_primary demo_args 0 (snd (new_list [rec_a, rec_b] empty_heap))) = Inr sel \<and>
                 saved (main demo_env demo_args) = (if dump_json demo_env p doc then Some (p, doc) else None))"
    by (rule conjunct1)
  from this demo_selectable
  have "status (main demo_env demo_args) = Return 0 \<and> printed (main demo_env demo_args) = None \<and>
      agent_input (main demo_env demo_args) = None \<and>
      (\<exists>sel. let p = ''logs/dataset_catalog_'' @ now demo_env @ ''.json'';
                  doc = \<lparr>doc_data_dir = abspath demo_env (str_of (data_dir demo_args)),
                         doc_patterns = patterns_of (data_glob demo_args),
                         doc_selected = sel, doc_files = [rec_a, rec_b]\<rparr>
              in fst (choose_primary demo_args 0 (snd (new_list [rec_a, rec_b] empty_heap))) = Inr sel \<and>
                 saved (main demo_env demo_args) = (if dump_json demo_env p doc then Some (p, doc) else None))"
    by (rule mp)
  then have "status (main demo_env demo_args) = Return 0"
    "agent_input (main demo_env demo_args) = None"
    by simp_all
  then show ?thesis
    using demo_flags demo_enumerate demo_build demo_selectable by (intro conjI)
qed

end
